theory Spec2Isabelle
  imports Main
begin

section \<open>The loki.rules.kubernetes component: data model\<close>

text \<open>
  Go errors are modelled by their message, durations by an integer count of
  nanoseconds (\<open>time.Duration\<close>; no arithmetic is done on them here, only the
  sign test of the ticker).
\<close>

type_synonym error = string
type_synonym duration = int

text \<open>
  Values of other packages that \<open>rules.go\<close> only passes around (the rest
  configuration, the HTTP client settings, a compiled selector) are identified
  by a string.
\<close>

type_synonym Selector = string
type_synonym restConfig = string
type_synonym HTTPClientConfig = string

text \<open>Modelled from the spec: the selector type of the arguments, the type of
  current state and the event types (with the constant \<open>eventTypeSyncLoki\<close>) are
  declared in files that are not among the sources. The spec has a selector
  expression supplied by the user, a mapping from namespace name to the ordered
  rule groups of that namespace, and an event that is either a full periodic
  sync or the change of a specific resource.\<close>

type_synonym LabelSelector = string
type_synonym RuleGroupsByNamespace = "(string \<times> string list) list"

datatype EventType = eventTypeResourceChanged | eventTypeSyncLoki

record Event =
  Typ :: EventType
  ObjectKey :: string

record Arguments =
  Address :: string
  TenantID :: string
  UseLegacyRoutes :: bool
  HTTPClientConfig :: HTTPClientConfig
  SyncInterval :: duration
  RuleSelector :: LabelSelector
  RuleNamespaceSelector :: LabelSelector

text \<open>The configuration handed to \<open>lokiClient.New\<close> by \<open>init\<close>.\<close>

record lokiClientConfig =
  cfgID :: string
  cfgAddress :: string
  cfgUseLegacyRoutes :: bool
  cfgHTTPClientConfig :: HTTPClientConfig

datatype lokiClient = LokiClient lokiClientConfig
datatype k8sClient = K8sClient restConfig
datatype promClient = PromClient restConfig

datatype Lister = NamespaceLister | PrometheusRuleLister
datatype Informer = NamespaceInformer | PrometheusRuleInformer

text \<open>
  A Go channel variable is nil, an open channel, or a closed one. \<open>close\<close> panics
  on the first and on the last.
\<close>

datatype chan_state = ChanNil | ChanOpen | ChanClosed

text \<open>
  The work queue is a library object; the component only creates it, adds to it
  and shuts it down. The field is nil before the first \<open>startup\<close>.
\<close>

datatype queue_state = QueueNil | QueueLive | QueueShutDown

datatype Health = HealthUnknown | HealthHealthy | HealthUnhealthy error

text \<open>\<open>ConfigUpdate\<close>: the new arguments and the caller's response channel
  (channels are identified by a number).\<close>

record ConfigUpdate =
  cu_args :: Arguments
  cu_err :: nat

text \<open>\<open>backoff.Config\<close> of dskit, as \<open>Run\<close> fills it in, and the backoff object
  made from it. How the library computes a delay from the configuration is not
  part of this component.\<close>

record BackoffConfig =
  MinBackoff :: duration
  MaxBackoff :: duration
  MaxRetries :: nat

record Backoff =
  cfg :: BackoffConfig

definition second :: duration where
  "second = 1000000000"

text \<open>
  The effects of the component on its collaborators (logger, informer factories,
  queue, channels, ticker), in the order in which the code performs them.
\<close>

datatype action =
    LogInfo string
  | LogError string error
  | ReportUnhealthy error
  | BackoffWait BackoffConfig
  | ConfigUpdatesTotalInc
  | NewQueue
  | MakeStopChan
  | NsAddEventHandler
  | NsFactoryStart
  | NsWaitForCacheSync
  | RuleAddEventHandler
  | RuleFactoryStart
  | RuleWaitForCacheSync
  | SyncLoki
  | GoEventLoop
  | CloseStopChan
  | QueueShutDownWithDrain
  | QueueAdd Event
  | TickerReset duration
  | SendErr nat "error option"

text \<open>
  The \<open>Component\<close> struct. \<open>configUpdates\<close> is the unbuffered request channel; it
  holds no data and is represented by the inputs of the run loop below. \<open>ticker\<close>
  is the ticker's period. \<open>configUpdatesTotal\<close> is the counter of the metrics
  struct. \<open>trace\<close> is not a field of the struct: it records the effects.

  The last three are not fields of the struct either. They keep apart the stop
  channels that \<open>startup\<close> makes one after the other in the same field:
  \<open>informerStopChan\<close> is the state of the channel the field holds now,
  \<open>stopChanNo\<close> is the number of that channel (channels are numbered in the order
  in which they are made, 0 when none has been made), \<open>closedChans\<close> are the
  channels that have been closed, and \<open>watches\<close> are the informers that a
  factory has started, each with the channel it was started on. An informer
  runs until the channel it was started on is closed.
\<close>

record Component =
  args :: Arguments
  lokiClient :: "lokiClient option"
  k8sClient :: "k8sClient option"
  promClient :: "promClient option"
  ruleLister :: "Lister option"
  ruleInformer :: "Informer option"
  namespaceLister :: "Lister option"
  namespaceInformer :: "Informer option"
  informerStopChan :: chan_state
  ticker :: duration
  queue :: queue_state
  namespaceSelector :: "Selector option"
  ruleSelector :: "Selector option"
  currentState :: RuleGroupsByNamespace
  configUpdatesTotal :: nat
  health :: Health
  trace :: "action list"
  stopChanNo :: nat
  closedChans :: "nat list"
  watches :: "(Informer \<times> nat) list"

text \<open>
  What the outside world answers during one call of \<open>init\<close> and \<open>startup\<close>:
  the results of \<open>controller.GetConfig\<close>, of the three client constructors, of
  \<open>ConvertSelectorToListOptions\<close>, of the two \<open>AddEventHandler\<close> calls and of
  \<open>syncLoki\<close>.
\<close>

record env =
  getConfig :: "error + restConfig"
  k8sNewForConfig :: "restConfig \<Rightarrow> error + k8sClient"
  promNewForConfig :: "restConfig \<Rightarrow> error + promClient"
  lokiClientNew :: "lokiClientConfig \<Rightarrow> error + lokiClient"
  convertSelectorToListOptions :: "LabelSelector \<Rightarrow> error + Selector"
  nsAddEventHandler :: "error option"
  ruleAddEventHandler :: "error option"
  syncLokiResult :: "error + RuleGroupsByNamespace"

text \<open>A call either completes or panics; the panic keeps the state reached.\<close>

datatype 'a res = Ok 'a | Panic string Component

section \<open>Operations\<close>

definition emit :: "action \<Rightarrow> Component \<Rightarrow> Component" where
  "emit a c = c\<lparr>trace := trace c @ [a]\<rparr>"

text \<open>Modelled from the spec: \<open>reportUnhealthy\<close> is defined in a file that is not
  among the sources; the spec says that unhealthy is set on startup failure or
  configuration-update failure.\<close>

definition reportUnhealthy :: "error \<Rightarrow> Component \<Rightarrow> Component" where
  "reportUnhealthy e c = emit (ReportUnhealthy e) (c\<lparr>health := HealthUnhealthy e\<rparr>)"

text \<open>Modelled from the spec: \<open>syncLoki\<close> is defined in a file that is not among
  the sources; a full sync replaces current state on success and leaves it
  unmodified on failure. Whether it succeeds, and with what state, is the
  world's answer.\<close>

definition syncLoki :: "env \<Rightarrow> Component \<Rightarrow> error option \<times> Component" where
  "syncLoki e c =
     (case syncLokiResult e of
        Inl err \<Rightarrow> (Some err, emit SyncLoki c)
      | Inr st \<Rightarrow> (None, emit SyncLoki (c\<lparr>currentState := st\<rparr>)))"

text \<open>\<open>Ticker.Reset\<close> panics when the duration is not positive.\<close>

definition tickerReset :: "duration \<Rightarrow> Component \<Rightarrow> Component res" where
  "tickerReset d c =
     (if d \<le> 0 then Panic ''non-positive interval for Ticker.Reset'' c
      else Ok (emit (TickerReset d) (c\<lparr>ticker := d\<rparr>)))"

text \<open>\<open>Component.init\<close>, in three parts: the clients, the ticker, the selectors.\<close>

definition init_clients :: "env \<Rightarrow> Component \<Rightarrow> error option \<times> Component" where
  "init_clients e c =
     (case getConfig e of
        Inl err \<Rightarrow> (Some (''failed to get k8s config: '' @ err), c)
      | Inr rc \<Rightarrow>
         (case k8sNewForConfig e rc of
            Inl err \<Rightarrow> (Some (''failed to create k8s client: '' @ err), c\<lparr>k8sClient := None\<rparr>)
          | Inr k \<Rightarrow>
             (case promNewForConfig e rc of
                Inl err \<Rightarrow>
                  (Some (''failed to create prometheus operator client: '' @ err),
                   c\<lparr>k8sClient := Some k, promClient := None\<rparr>)
              | Inr p \<Rightarrow>
                 (case lokiClientNew e
                         \<lparr>cfgID = TenantID (args c), cfgAddress = Address (args c),
                          cfgUseLegacyRoutes = UseLegacyRoutes (args c),
                          cfgHTTPClientConfig = HTTPClientConfig (args c)\<rparr> of
                    Inl err \<Rightarrow>
                      (Some err, c\<lparr>k8sClient := Some k, promClient := Some p, lokiClient := None\<rparr>)
                  | Inr l \<Rightarrow>
                      (None, c\<lparr>k8sClient := Some k, promClient := Some p,
                               lokiClient := Some l\<rparr>)))))"

definition init_selectors :: "env \<Rightarrow> Component \<Rightarrow> error option \<times> Component" where
  "init_selectors e c =
     (case convertSelectorToListOptions e (RuleNamespaceSelector (args c)) of
        Inl err \<Rightarrow> (Some err, c\<lparr>namespaceSelector := None\<rparr>)
      | Inr ns \<Rightarrow>
         (case convertSelectorToListOptions e (RuleSelector (args c)) of
            Inl err \<Rightarrow> (Some err, c\<lparr>namespaceSelector := Some ns, ruleSelector := None\<rparr>)
          | Inr rs \<Rightarrow> (None, c\<lparr>namespaceSelector := Some ns, ruleSelector := Some rs\<rparr>)))"

definition init :: "env \<Rightarrow> Component \<Rightarrow> (error option \<times> Component) res" where
  "init e c =
     (case init_clients e (emit (LogInfo ''initializing with new configuration'') c) of
        (Some err, c1) \<Rightarrow> Ok (Some err, c1)
      | (None, c1) \<Rightarrow>
         (case tickerReset (SyncInterval (args c1)) c1 of
            Panic msg cp \<Rightarrow> Panic msg cp
          | Ok c2 \<Rightarrow> Ok (init_selectors e c2)))"

text \<open>\<open>startNamespaceInformer\<close> and \<open>startRuleInformer\<close>.\<close>

definition startNamespaceInformer :: "env \<Rightarrow> Component \<Rightarrow> error option \<times> Component" where
  "startNamespaceInformer e c =
     (let c1 = emit NsAddEventHandler
                 (c\<lparr>namespaceLister := Some NamespaceLister,
                    namespaceInformer := Some NamespaceInformer\<rparr>)
      in case nsAddEventHandler e of
           Some err \<Rightarrow> (Some err, c1)
         | None \<Rightarrow>
             (None, emit NsWaitForCacheSync
                      (emit NsFactoryStart
                         (c1\<lparr>watches := watches c1 @ [(NamespaceInformer, stopChanNo c1)]\<rparr>))))"

definition startRuleInformer :: "env \<Rightarrow> Component \<Rightarrow> error option \<times> Component" where
  "startRuleInformer e c =
     (let c1 = emit RuleAddEventHandler
                 (c\<lparr>ruleLister := Some PrometheusRuleLister,
                    ruleInformer := Some PrometheusRuleInformer\<rparr>)
      in case ruleAddEventHandler e of
           Some err \<Rightarrow> (Some err, c1)
         | None \<Rightarrow>
             (None, emit RuleWaitForCacheSync
                      (emit RuleFactoryStart
                         (c1\<lparr>watches := watches c1 @ [(PrometheusRuleInformer, stopChanNo c1)]\<rparr>))))"

text \<open>\<open>startup\<close> launches the informers and starts the event loop.\<close>

definition startup :: "env \<Rightarrow> Component \<Rightarrow> error option \<times> Component" where
  "startup e c =
     (let c1 = emit MakeStopChan
                 ((emit NewQueue (c\<lparr>queue := QueueLive\<rparr>))
                    \<lparr>informerStopChan := ChanOpen, stopChanNo := Suc (stopChanNo c)\<rparr>)
      in case startNamespaceInformer e c1 of
           (Some err, c2) \<Rightarrow> (Some err, c2)
         | (None, c2) \<Rightarrow>
            (case startRuleInformer e c2 of
               (Some err, c3) \<Rightarrow> (Some err, c3)
             | (None, c3) \<Rightarrow>
                (case syncLoki e c3 of
                   (Some err, c4) \<Rightarrow> (Some err, c4)
                 | (None, c4) \<Rightarrow> (None, emit GoEventLoop c4))))"

text \<open>\<open>shutdown\<close>: close the stop channel, then shut the queue down.\<close>

definition shutdown :: "Component \<Rightarrow> Component res" where
  "shutdown c =
     (case informerStopChan c of
        ChanNil \<Rightarrow> Panic ''close of nil channel'' c
      | ChanClosed \<Rightarrow> Panic ''close of closed channel'' c
      | ChanOpen \<Rightarrow>
         (let c1 = emit CloseStopChan
                     (c\<lparr>informerStopChan := ChanClosed,
                        closedChans := closedChans c @ [stopChanNo c]\<rparr>)
          in case queue c1 of
               QueueNil \<Rightarrow> Panic ''runtime error: invalid memory address or nil pointer dereference'' c1
             | _ \<Rightarrow> Ok (emit QueueShutDownWithDrain (c1\<lparr>queue := QueueShutDown\<rparr>))))"

text \<open>
  The \<open>select\<close> of \<open>Run\<close> receives one of three things: a configuration update
  (with what the world answers while it is processed), the cancellation of the
  context, a tick.
\<close>

datatype input = RecvConfigUpdate ConfigUpdate env | CtxDone | Tick

text \<open>The body of the \<open>configUpdates\<close> case: the result is the value sent on the
  update's channel.\<close>

definition handleUpdate :: "ConfigUpdate \<Rightarrow> env \<Rightarrow> Component \<Rightarrow> (error option \<times> Component) res" where
  "handleUpdate u e c =
     (case shutdown (emit ConfigUpdatesTotalInc (c\<lparr>configUpdatesTotal := Suc (configUpdatesTotal c)\<rparr>)) of
        Panic msg cp \<Rightarrow> Panic msg cp
      | Ok c1 \<Rightarrow>
         (case init e (c1\<lparr>args := cu_args u\<rparr>) of
            Panic msg cp \<Rightarrow> Panic msg cp
          | Ok (Some err, c2) \<Rightarrow>
              Ok (Some err,
                  emit (SendErr (cu_err u) (Some err))
                    (reportUnhealthy err (emit (LogError ''updating configuration failed'' err) c2)))
          | Ok (None, c2) \<Rightarrow>
             (case startup e c2 of
                (Some err, c3) \<Rightarrow>
                  Ok (Some err,
                      emit (SendErr (cu_err u) (Some err))
                        (reportUnhealthy err (emit (LogError ''updating configuration failed'' err) c3)))
              | (None, c3) \<Rightarrow> Ok (None, emit (SendErr (cu_err u) None) c3))))"

text \<open>The body of the ticker case. Calling \<open>Add\<close> on a nil queue would panic.\<close>

definition handleTick :: "Component \<Rightarrow> Component res" where
  "handleTick c =
     (case queue c of
        QueueNil \<Rightarrow> Panic ''runtime error: invalid memory address or nil pointer dereference'' c
      | _ \<Rightarrow> Ok (emit (QueueAdd \<lparr>Typ = eventTypeSyncLoki, ObjectKey = ''''\<rparr>) c))"

text \<open>
  How \<open>Run\<close> ends: it returns, it panics, or it is still waiting in \<open>select\<close>
  when the inputs considered are used up.
\<close>

datatype run_outcome = Returned "error option" | Panicked string | Waiting

fun run_loop :: "input list \<Rightarrow> Component \<Rightarrow> run_outcome \<times> Component" where
  "run_loop [] c = (Waiting, c)"
| "run_loop (RecvConfigUpdate u e # ins) c =
     (case handleUpdate u e c of
        Panic msg cp \<Rightarrow> (Panicked msg, cp)
      | Ok (r, c1) \<Rightarrow> run_loop ins c1)"
| "run_loop (CtxDone # ins) c =
     (case shutdown c of
        Panic msg cp \<Rightarrow> (Panicked msg, cp)
      | Ok c1 \<Rightarrow> (Returned None, c1))"
| "run_loop (Tick # ins) c =
     (case handleTick c of
        Panic msg cp \<Rightarrow> (Panicked msg, cp)
      | Ok c1 \<Rightarrow> run_loop ins c1)"

text \<open>
  The first loop of \<open>Run\<close>: \<open>startup\<close> is tried until it succeeds, with a
  \<open>Wait\<close> on the backoff after each failure. The world's answers to the
  attempts are given by their number. The loop has no exit but success, so it
  need not return: \<open>None\<close> is the run that never leaves it.
\<close>

definition backoffNew :: "BackoffConfig \<Rightarrow> Backoff" where
  "backoffNew bc = \<lparr>cfg = bc\<rparr>"

definition startupBackoffConfig :: BackoffConfig where
  "startupBackoffConfig = \<lparr>MinBackoff = 1 * second, MaxBackoff = 10 * second, MaxRetries = 0\<rparr>"

definition Wait :: "Backoff \<Rightarrow> Component \<Rightarrow> Component" where
  "Wait b c = emit (BackoffWait (cfg b)) c"

partial_function (option) startup_loop ::
  "(nat \<Rightarrow> env) \<Rightarrow> nat \<Rightarrow> Backoff \<Rightarrow> Component \<Rightarrow> (nat \<times> Backoff \<times> Component) option" where
  "startup_loop envs n b c =
     (case startup (envs n) c of
        (None, c1) \<Rightarrow> Some (n, b, c1)
      | (Some err, c1) \<Rightarrow>
          startup_loop envs (Suc n) b
            (Wait b (reportUnhealthy err
                       (emit (LogError ''starting up component failed'' err) c1))))"

declare startup_loop.simps [code]

definition Run :: "(nat \<Rightarrow> env) \<Rightarrow> input list \<Rightarrow> Component \<Rightarrow> (run_outcome \<times> Component) option" where
  "Run envs ins c =
     (case startup_loop envs 0 (backoffNew startupBackoffConfig) c of
        None \<Rightarrow> None
      | Some (n, b, c1) \<Rightarrow> Some (run_loop ins c1))"

text \<open>
  \<open>NewComponent\<close>: the struct literal, then \<open>init\<close>. \<open>time.NewTicker\<close> panics
  when the interval is not positive. \<open>metrics.Register\<close> always returns nil.
\<close>

datatype new_result = NewOk Component | NewErr error | NewPanic string

definition newComponentStruct :: "Arguments \<Rightarrow> Component" where
  "newComponentStruct a =
     \<lparr>args = a, lokiClient = None, k8sClient = None, promClient = None,
      ruleLister = None, ruleInformer = None, namespaceLister = None,
      namespaceInformer = None, informerStopChan = ChanNil, ticker = SyncInterval a,
      queue = QueueNil, namespaceSelector = None, ruleSelector = None,
      currentState = [], configUpdatesTotal = 0, health = HealthUnknown, trace = [],
      stopChanNo = 0, closedChans = [], watches = []\<rparr>"

definition NewComponent :: "env \<Rightarrow> Arguments \<Rightarrow> new_result" where
  "NewComponent e a =
     (if SyncInterval a \<le> 0 then NewPanic ''non-positive interval for NewTicker''
      else case init e (newComponentStruct a) of
             Panic msg cp \<Rightarrow> NewPanic msg
           | Ok (Some err, c) \<Rightarrow> NewErr (''initializing component failed: '' @ err)
           | Ok (None, c) \<Rightarrow> NewOk c)"

text \<open>
  The error \<open>startup\<close> returns depends only on what the world answers: the first
  of the two \<open>AddEventHandler\<close> calls and \<open>syncLoki\<close> that fails.
\<close>

definition startup_err :: "env \<Rightarrow> error option" where
  "startup_err e =
     (case nsAddEventHandler e of
        Some err \<Rightarrow> Some err
      | None \<Rightarrow>
         (case ruleAddEventHandler e of
            Some err \<Rightarrow> Some err
          | None \<Rightarrow> (case syncLokiResult e of Inl err \<Rightarrow> Some err | Inr st \<Rightarrow> None)))"

text \<open>
  The error of the client constructions of \<open>init\<close> depends only on the
  arguments and on what the world answers.
\<close>

definition clients_err :: "env \<Rightarrow> Arguments \<Rightarrow> error option" where
  "clients_err e a = fst (init_clients e (newComponentStruct a))"

text \<open>The informers that are still running: those started on a channel that
  has not been closed.\<close>

definition running_watches :: "Component \<Rightarrow> (Informer \<times> nat) list" where
  "running_watches c = filter (\<lambda>w. snd w \<notin> set (closedChans c)) (watches c)"

text \<open>The state a call leaves behind, whether it completed or panicked.\<close>

fun state_of :: "(error option \<times> Component) res \<Rightarrow> Component" where
  "state_of (Ok (r, c)) = c"
| "state_of (Panic msg c) = c"

text \<open>Reading the trace.\<close>

fun isBackoffWait :: "action \<Rightarrow> bool" where
  "isBackoffWait (BackoffWait bc) = True"
| "isBackoffWait a = False"

fun unhealthyReports :: "action list \<Rightarrow> error list" where
  "unhealthyReports [] = []"
| "unhealthyReports (ReportUnhealthy e # as) = e # unhealthyReports as"
| "unhealthyReports (a # as) = unhealthyReports as"

fun sentOn :: "nat \<Rightarrow> action list \<Rightarrow> error option list" where
  "sentOn ch [] = []"
| "sentOn ch (SendErr ch' r # as) = (if ch' = ch then r # sentOn ch as else sentOn ch as)"
| "sentOn ch (a # as) = sentOn ch as"

section \<open>Update and the run loop as communicating processes\<close>

text \<open>
  \<open>Update\<close> makes a channel of its own, sends the update on \<open>configUpdates\<close> and
  receives the result from its channel. Both channels are unbuffered: a send
  completes together with the matching receive. A call of \<open>Update\<close> is therefore
  blocked in its send, blocked in its receive, or has returned.
\<close>

datatype caller = AtSend ConfigUpdate | AtRecv nat | UpdateReturned "error option"

text \<open>The call numbered \<open>i\<close> uses the channel numbered \<open>i\<close>: \<open>make\<close> gives every
  call a channel that no other call has.\<close>

definition Update :: "nat \<Rightarrow> Arguments \<Rightarrow> caller" where
  "Update i newConfig = AtSend \<lparr>cu_args = newConfig, cu_err = i\<rparr>"

text \<open>
  The run loop is in its \<open>select\<close>, or blocked in \<open>update.err <- err\<close> with the
  update it received and the result it computed, or it has returned, or it has
  panicked.
\<close>

datatype loop_state = Selecting | SendingErr ConfigUpdate "error option"
  | Exited "error option" | Crashed string

record system =
  callers :: "caller list"
  loop :: loop_state
  comp :: Component

text \<open>What the scheduler and the world choose next.\<close>

datatype event = Receive nat env | Deliver nat | TickEv | Cancel

fun in_flight :: "caller \<Rightarrow> bool" where
  "in_flight (AtRecv ch) = True"
| "in_flight cl = False"

definition receive_step :: "nat \<Rightarrow> env \<Rightarrow> system \<Rightarrow> system option" where
  "receive_step i e s =
     (if loop s = Selecting \<and> i < length (callers s) then
        (case callers s ! i of
           AtSend u \<Rightarrow>
             (case handleUpdate u e (comp s) of
                Ok (r, c1) \<Rightarrow>
                  Some (s\<lparr>callers := (callers s)[i := AtRecv (cu_err u)],
                          loop := SendingErr u r, comp := c1\<rparr>)
              | Panic msg cp \<Rightarrow>
                  Some (s\<lparr>callers := (callers s)[i := AtRecv (cu_err u)],
                          loop := Crashed msg, comp := cp\<rparr>))
         | _ \<Rightarrow> None)
      else None)"

definition deliver_step :: "nat \<Rightarrow> system \<Rightarrow> system option" where
  "deliver_step i s =
     (case loop s of
        SendingErr u r \<Rightarrow>
          (if i < length (callers s) \<and> callers s ! i = AtRecv (cu_err u)
           then Some (s\<lparr>callers := (callers s)[i := UpdateReturned r], loop := Selecting\<rparr>)
           else None)
      | _ \<Rightarrow> None)"

definition tick_step :: "system \<Rightarrow> system option" where
  "tick_step s =
     (if loop s = Selecting then
        (case handleTick (comp s) of
           Ok c1 \<Rightarrow> Some (s\<lparr>comp := c1\<rparr>)
         | Panic msg cp \<Rightarrow> Some (s\<lparr>loop := Crashed msg, comp := cp\<rparr>))
      else None)"

definition cancel_step :: "system \<Rightarrow> system option" where
  "cancel_step s =
     (if loop s = Selecting then
        (case shutdown (comp s) of
           Ok c1 \<Rightarrow> Some (s\<lparr>loop := Exited None, comp := c1\<rparr>)
         | Panic msg cp \<Rightarrow> Some (s\<lparr>loop := Crashed msg, comp := cp\<rparr>))
      else None)"

fun sys_step :: "event \<Rightarrow> system \<Rightarrow> system option" where
  "sys_step (Receive i e) s = receive_step i e s"
| "sys_step (Deliver i) s = deliver_step i s"
| "sys_step TickEv s = tick_step s"
| "sys_step Cancel s = cancel_step s"

fun run_sys :: "event list \<Rightarrow> system \<Rightarrow> system option" where
  "run_sys [] s = Some s"
| "run_sys (ev # evs) s =
     (case sys_step ev s of None \<Rightarrow> None | Some s1 \<Rightarrow> run_sys evs s1)"

text \<open>Any number of calls of \<open>Update\<close>, all blocked in their send, and the run loop
  in its \<open>select\<close>.\<close>

definition init_sys :: "Arguments list \<Rightarrow> Component \<Rightarrow> system" where
  "init_sys as c =
     \<lparr>callers = map (\<lambda>i. Update i (as ! i)) [0..<length as], loop = Selecting, comp = c\<rparr>"

text \<open>
  The run loop alone, as \<open>run_loop\<close> has it, seen from the system: what the
  \<open>select\<close> receives at each event (the delivery of a result is no input of the
  loop), and how the loop stands.
\<close>

fun input_of :: "Arguments list \<Rightarrow> event \<Rightarrow> input list" where
  "input_of as (Receive i e) = [RecvConfigUpdate \<lparr>cu_args = as ! i, cu_err = i\<rparr> e]"
| "input_of as (Deliver i) = []"
| "input_of as TickEv = [Tick]"
| "input_of as Cancel = [CtxDone]"

fun outcome_of :: "loop_state \<Rightarrow> run_outcome" where
  "outcome_of Selecting = Waiting"
| "outcome_of (SendingErr u r) = Waiting"
| "outcome_of (Exited r) = Returned r"
| "outcome_of (Crashed msg) = Panicked msg"

text \<open>
  What holds of every state the system reaches: a call blocked in its send
  carries its own arguments and its own channel; a call blocked in its receive
  waits on its own channel, and the loop is then sending on that channel the
  result for that call's update (or has panicked); the loop sends only to a call
  that waits.
\<close>

definition sys_inv :: "Arguments list \<Rightarrow> system \<Rightarrow> bool" where
  "sys_inv as s \<longleftrightarrow>
     length (callers s) = length as \<and>
     (\<forall>i u. i < length as \<and> callers s ! i = AtSend u \<longrightarrow>
        u = \<lparr>cu_args = as ! i, cu_err = i\<rparr>) \<and>
     (\<forall>i ch. i < length as \<and> callers s ! i = AtRecv ch \<longrightarrow>
        ch = i \<and> ((\<exists>r. loop s = SendingErr \<lparr>cu_args = as ! i, cu_err = i\<rparr> r) \<or>
                 (\<exists>msg. loop s = Crashed msg))) \<and>
     (\<forall>u r. loop s = SendingErr u r \<longrightarrow>
        cu_err u < length as \<and> callers s ! cu_err u = AtRecv (cu_err u))"

section \<open>Concrete inputs\<close>

definition example_env :: env where
  "example_env =
     \<lparr>getConfig = Inr ''in-cluster'',
      k8sNewForConfig = (\<lambda>rc. Inr (K8sClient rc)),
      promNewForConfig = (\<lambda>rc. Inr (PromClient rc)),
      lokiClientNew =
        (\<lambda>lc. if cfgAddress lc = [] then Inl ''empty address'' else Inr (LokiClient lc)),
      convertSelectorToListOptions =
        (\<lambda>s. if s = ''app in'' then Inl ''invalid selector'' else Inr s),
      nsAddEventHandler = None,
      ruleAddEventHandler = None,
      syncLokiResult = Inr []\<rparr>"

definition example_args :: Arguments where
  "example_args =
     \<lparr>Address = ''http://loki:3100'', TenantID = ''t'', UseLegacyRoutes = False,
      HTTPClientConfig = [], SyncInterval = 30 * second,
      RuleSelector = ''app=alloy'', RuleNamespaceSelector = []\<rparr>"

text \<open>The component as \<open>NewComponent\<close> returns it for \<open>example_args\<close>.\<close>

definition example_built :: Component where
  "example_built =
     \<lparr>args = example_args,
      lokiClient = Some (LokiClient \<lparr>cfgID = ''t'', cfgAddress = ''http://loki:3100'',
                                      cfgUseLegacyRoutes = False, cfgHTTPClientConfig = []\<rparr>),
      k8sClient = Some (K8sClient ''in-cluster''),
      promClient = Some (PromClient ''in-cluster''),
      ruleLister = None, ruleInformer = None, namespaceLister = None,
      namespaceInformer = None, informerStopChan = ChanNil, ticker = 30 * second,
      queue = QueueNil, namespaceSelector = Some [],
      ruleSelector = Some ''app=alloy'', currentState = [],
      configUpdatesTotal = 0, health = HealthUnknown,
      trace = [LogInfo ''initializing with new configuration'', TickerReset (30 * second)],
      stopChanNo = 0, closedChans = [], watches = []\<rparr>"

definition example_bad_args :: Arguments where
  "example_bad_args = example_args\<lparr>RuleSelector := ''app in''\<rparr>"

definition example_failing_env :: env where
  "example_failing_env = example_env\<lparr>syncLokiResult := Inl ''sync failed''\<rparr>"

definition example_envs :: "nat \<Rightarrow> env" where
  "example_envs n = (if n < 2 then example_failing_env else example_env)"

text \<open>A component in the middle of its life: built by \<open>NewComponent\<close> from
  \<open>example_args\<close>, started by \<open>startup\<close>, with its trace cleared.\<close>

definition example_running :: Component where
  "example_running =
     \<lparr>args = example_args,
      lokiClient = Some (LokiClient \<lparr>cfgID = ''t'', cfgAddress = ''http://loki:3100'',
                                      cfgUseLegacyRoutes = False, cfgHTTPClientConfig = []\<rparr>),
      k8sClient = Some (K8sClient ''in-cluster''),
      promClient = Some (PromClient ''in-cluster''),
      ruleLister = Some PrometheusRuleLister,
      ruleInformer = Some PrometheusRuleInformer,
      namespaceLister = Some NamespaceLister,
      namespaceInformer = Some NamespaceInformer,
      informerStopChan = ChanOpen, ticker = 30 * second,
      queue = QueueLive, namespaceSelector = Some [],
      ruleSelector = Some ''app=alloy'', currentState = [],
      configUpdatesTotal = 0, health = HealthUnknown, trace = [],
      stopChanNo = 1, closedChans = [],
      watches = [(NamespaceInformer, 1), (PrometheusRuleInformer, 1)]\<rparr>"

section \<open>Basic facts about the operations\<close>

lemmas startup_defs = startup_def startNamespaceInformer_def startRuleInformer_def
  syncLoki_def emit_def Let_def

lemmas init_defs = init_def init_clients_def init_selectors_def tickerReset_def emit_def

lemmas handleUpdate_defs = handleUpdate_def shutdown_def init_def init_clients_def
  init_selectors_def tickerReset_def startup_defs reportUnhealthy_def

lemmas example_defs = example_env_def example_args_def example_bad_args_def
  example_failing_env_def example_running_def example_built_def second_def

lemmas sys_defs = receive_step_def deliver_step_def tick_step_def cancel_step_def
  init_sys_def Update_def

lemma startup_fst: "fst (startup e c) = startup_err e"
  by (simp add: startup_defs startup_err_def split: option.splits sum.splits)

lemma init_clients_fst: "fst (init_clients e c) = clients_err e (args c)"
  by (simp add: clients_err_def init_clients_def newComponentStruct_def split: sum.splits)

lemma shutdown_open:
  "informerStopChan c = ChanOpen \<Longrightarrow> queue c \<noteq> QueueNil \<Longrightarrow>
   shutdown c = Ok (c\<lparr>informerStopChan := ChanClosed, queue := QueueShutDown,
                        trace := trace c @ [CloseStopChan, QueueShutDownWithDrain],
                        closedChans := closedChans c @ [stopChanNo c]\<rparr>)"
  by (simp add: shutdown_def emit_def Let_def split: queue_state.splits)

lemma shutdown_closed:
  "informerStopChan c = ChanClosed \<Longrightarrow> shutdown c = Panic ''close of closed channel'' c"
  by (simp add: shutdown_def)

lemma shutdown_Ok_iff:
  "(\<exists>c1. shutdown c = Ok c1) \<longleftrightarrow> informerStopChan c = ChanOpen \<and> queue c \<noteq> QueueNil"
  by (auto simp: shutdown_def emit_def Let_def split: chan_state.splits queue_state.splits)

lemma example_built_by_NewComponent: "NewComponent example_env example_args = NewOk example_built"
  by (simp add: NewComponent_def newComponentStruct_def init_defs example_defs)

text \<open>
  The state a successful update or a successful construction leaves: the new
  arguments, the ticker set to their interval, a new queue and an open stop
  channel.
\<close>

lemma handleUpdate_ok_state:
  "handleUpdate u e c = Ok (None, c') \<Longrightarrow>
     args c' = cu_args u \<and> ticker c' = SyncInterval (cu_args u) \<and>
     informerStopChan c' = ChanOpen \<and> queue c' = QueueLive"
  by (auto simp: handleUpdate_defs
      split: chan_state.splits queue_state.splits sum.splits option.splits if_splits)

lemma NewComponent_ok_state:
  "NewComponent e a = NewOk c \<Longrightarrow> args c = a \<and> ticker c = SyncInterval a"
  by (auto simp: NewComponent_def newComponentStruct_def init_defs
      split: sum.splits option.splits if_splits)

text \<open>
  An update received while the stop channel is open, with a positive interval:
  the old generation is shut down first, and exactly one result is sent on the
  update's channel, as the last thing.
\<close>

lemma handleUpdate_live:
  assumes "informerStopChan c = ChanOpen" "queue c \<noteq> QueueNil" "0 < SyncInterval (cu_args u)"
  shows "\<exists>r c' tr. handleUpdate u e c = Ok (r, c')
           \<and> trace c' = trace c @ [ConfigUpdatesTotalInc, CloseStopChan, QueueShutDownWithDrain] @ tr
                                   @ [SendErr (cu_err u) r]
           \<and> sentOn (cu_err u) tr = [] \<and> args c' = cu_args u
           \<and> (r = None \<longrightarrow> informerStopChan c' = ChanOpen \<and> queue c' = QueueLive
                               \<and> last tr = GoEventLoop)"
  using assms
  by (auto simp: handleUpdate_defs
      split: chan_state.splits queue_state.splits sum.splits option.splits if_splits)

text \<open>
  Seen from the caller: a call of \<open>Update\<close> that the loop receives in such a
  state is answered, and returns the one result sent on its channel.
\<close>

lemma sentOn_append: "sentOn ch (xs @ ys) = sentOn ch xs @ sentOn ch ys"
  by (induction ch xs rule: sentOn.induct) auto

lemma update_roundtrip:
  assumes "loop s = Selecting" "i < length (callers s)" "callers s ! i = AtSend u"
    and "informerStopChan (comp s) = ChanOpen" "queue (comp s) \<noteq> QueueNil"
    and "0 < SyncInterval (cu_args u)"
  shows "\<exists>r s1 s2. receive_step i e s = Some s1 \<and> deliver_step i s1 = Some s2
           \<and> callers s2 ! i = UpdateReturned r \<and> loop s2 = Selecting
           \<and> handleUpdate u e (comp s) = Ok (r, comp s2)
           \<and> sentOn (cu_err u) (drop (length (trace (comp s))) (trace (comp s2))) = [r]"
proof -
  from handleUpdate_live [OF assms(4,5,6), of e] obtain r c' tr where
    h: "handleUpdate u e (comp s) = Ok (r, c')"
    and t: "trace c' = trace (comp s) @ [ConfigUpdatesTotalInc, CloseStopChan, QueueShutDownWithDrain]
                         @ tr @ [SendErr (cu_err u) r]"
    and n: "sentOn (cu_err u) tr = []"
    by blast
  let ?s1 = "s\<lparr>callers := (callers s)[i := AtRecv (cu_err u)], loop := SendingErr u r, comp := c'\<rparr>"
  let ?s2 = "?s1\<lparr>callers := (callers ?s1)[i := UpdateReturned r], loop := Selecting\<rparr>"
  have r1: "receive_step i e s = Some ?s1"
    using assms(1,2,3) h by (simp add: receive_step_def)
  have r2: "deliver_step i ?s1 = Some ?s2"
    using assms(2) by (simp add: deliver_step_def)
  have "sentOn (cu_err u) (drop (length (trace (comp s))) (trace c')) = [r]"
    using t n by (simp add: sentOn_append)
  with r1 r2 h assms(2) show ?thesis by auto
qed

section \<open>The order of startup\<close>

text \<open>
  C7. Every successful \<open>startup\<close> does, in this order and nothing else: make a
  new queue and a new stop channel, register the namespace handler, start the
  namespace informer and wait for its cache to sync, the same for the rule
  informer, run \<open>syncLoki\<close> once, and only then launch the event loop. The
  queue and the stop channel it leaves are the new ones, whatever they were
  before.
\<close>

theorem startup_order:
  "startup e c = (None, c') \<Longrightarrow>
     trace c' = trace c @ [NewQueue, MakeStopChan,
                          NsAddEventHandler, NsFactoryStart, NsWaitForCacheSync,
                          RuleAddEventHandler, RuleFactoryStart, RuleWaitForCacheSync,
                          SyncLoki, GoEventLoop]
     \<and> queue c' = QueueLive \<and> informerStopChan c' = ChanOpen"
  by (auto simp: startup_defs split: option.splits sum.splits)

theorem startup_order_witness:
  "fst (startup example_env example_running) = None \<and>
   trace (snd (startup example_env example_running)) =
     [NewQueue, MakeStopChan, NsAddEventHandler, NsFactoryStart, NsWaitForCacheSync,
      RuleAddEventHandler, RuleFactoryStart, RuleWaitForCacheSync, SyncLoki, GoEventLoop]"
proof -
  have h: "startup example_env example_running = (None, snd (startup example_env example_running))"
    by (simp add: startup_defs example_env_def)
  have t: "trace example_running = []"
    by (simp add: example_running_def)
  from startup_order [OF h] t show ?thesis
    by (simp add: startup_fst startup_err_def example_env_def)
qed

section \<open>The cases of the run loop\<close>

text \<open>
  C10. Every configuration update the run loop receives increments
  \<open>config_updates_total\<close> exactly once, and does so first: before the old
  generation is shut down and before the new configuration is looked at, hence
  whether the update then succeeds, fails or panics.
\<close>

theorem config_update_counted_once:
  "configUpdatesTotal (state_of (handleUpdate u e c)) = Suc (configUpdatesTotal c)
   \<and> (\<exists>rest. trace (state_of (handleUpdate u e c)) = trace c @ ConfigUpdatesTotalInc # rest
         \<and> ConfigUpdatesTotalInc \<notin> set rest)"
  by (auto simp: handleUpdate_defs
      split: chan_state.splits queue_state.splits sum.splits option.splits)

text \<open>
  C9. On a tick the run loop adds exactly one \<open>eventTypeSyncLoki\<close> event to the
  queue and changes nothing else of the component (current state included).
  The ticker's period is the sync interval of the arguments the component was
  built with, and of the arguments of every update that was applied.
\<close>

theorem tick_enqueues_full_sync:
  "(queue c \<noteq> QueueNil \<longrightarrow>
      handleTick c = Ok (c\<lparr>trace := trace c @ [QueueAdd \<lparr>Typ = eventTypeSyncLoki, ObjectKey = []\<rparr>]\<rparr>))
   \<and> (NewComponent e a = NewOk c1 \<longrightarrow> ticker c1 = SyncInterval a \<and> args c1 = a)
   \<and> (handleUpdate u e c = Ok (None, c2) \<longrightarrow>
        ticker c2 = SyncInterval (cu_args u) \<and> args c2 = cu_args u)"
  using handleUpdate_ok_state [of u e c c2] NewComponent_ok_state [of e a c1]
  by (auto simp: handleTick_def emit_def split: queue_state.splits)

theorem tick_enqueues_full_sync_witness:
  "queue example_running \<noteq> QueueNil
   \<and> handleTick example_running =
       Ok (example_running\<lparr>trace := [QueueAdd \<lparr>Typ = eventTypeSyncLoki, ObjectKey = []\<rparr>]\<rparr>)
   \<and> NewComponent example_env example_args = NewOk example_built
   \<and> ticker example_built = 30 * second
   \<and> (\<exists>c2. handleUpdate \<lparr>cu_args = example_args\<lparr>SyncInterval := 5 * second\<rparr>, cu_err = 0\<rparr>
                example_env example_running = Ok (None, c2)
            \<and> ticker c2 = 5 * second)"
proof -
  let ?u = "\<lparr>cu_args = example_args\<lparr>SyncInterval := 5 * second\<rparr>, cu_err = 0\<rparr>"
  have q: "queue example_running \<noteq> QueueNil" by (simp add: example_defs)
  have t: "trace example_running = []" by (simp add: example_defs)
  obtain c2 where h: "handleUpdate ?u example_env example_running = Ok (None, c2)"
    by (simp add: handleUpdate_defs example_defs)
  note th = tick_enqueues_full_sync [of example_running example_env example_args example_built ?u c2]
  from th q t have A: "handleTick example_running =
       Ok (example_running\<lparr>trace := [QueueAdd \<lparr>Typ = eventTypeSyncLoki, ObjectKey = []\<rparr>]\<rparr>)"
    by simp
  from th example_built_by_NewComponent have B: "ticker example_built = 30 * second"
    by (simp add: example_defs)
  from th h have C: "ticker c2 = 5 * second"
    by (simp add: example_defs)
  from q A B C h example_built_by_NewComponent show ?thesis by blast
qed

section \<open>A configuration update that fails\<close>

text \<open>
  The claim C2 says that after a failed update the controller stays on the prior
  generation. It does not: an update with a selector that does not parse, sent
  to a running component, is answered with the error, and the component is left
  with its stop channel closed, its queue shut down and the new arguments.
\<close>

theorem failed_update_leaves_prior_generation_counterexample:
  "informerStopChan example_running = ChanOpen \<and> queue example_running = QueueLive \<and>
   args example_running = example_args \<and>
   (case handleUpdate \<lparr>cu_args = example_bad_args, cu_err = 0\<rparr> example_env example_running of
      Ok (r, c') \<Rightarrow>
        r = Some ''invalid selector'' \<and> informerStopChan c' = ChanClosed \<and>
        queue c' = QueueShutDown \<and> args c' = example_bad_args
    | Panic msg cp \<Rightarrow> False) \<and>
   example_bad_args \<noteq> example_args"
  by (simp add: handleUpdate_defs example_defs)

text \<open>
  C2, as amended. Whenever the processing of a configuration update ends with an
  error, the error is the one result sent on the update's channel, as the last
  action, after the component was reported unhealthy with it. The prior
  generation was shut down before the new configuration was looked at (so its
  stop channel was open), the new arguments are in effect, and no event loop
  was launched: either \<open>init\<close> failed and the component is left with a closed
  stop channel and a queue shut down, or \<open>startup\<close> failed and it is left with a
  new queue and a new stop channel.
\<close>

theorem failed_update_amended:
  "handleUpdate u e c = Ok (Some err, c') \<Longrightarrow>
     informerStopChan c = ChanOpen
     \<and> (\<exists>tr. trace c' = trace c @ [ConfigUpdatesTotalInc, CloseStopChan, QueueShutDownWithDrain] @ tr
                  @ [LogError ''updating configuration failed'' err, ReportUnhealthy err,
                     SendErr (cu_err u) (Some err)]
            \<and> GoEventLoop \<notin> set tr \<and> sentOn (cu_err u) tr = []
            \<and> (informerStopChan c' = ChanClosed \<and> queue c' = QueueShutDown
                \<or> informerStopChan c' = ChanOpen \<and> queue c' = QueueLive \<and> NewQueue \<in> set tr))
     \<and> health c' = HealthUnhealthy err \<and> args c' = cu_args u"
  by (auto simp: handleUpdate_defs
      split: chan_state.splits queue_state.splits sum.splits option.splits if_splits)

theorem failed_update_amended_witness:
  "\<exists>c'. handleUpdate \<lparr>cu_args = example_bad_args, cu_err = 0\<rparr> example_env example_running
           = Ok (Some ''invalid selector'', c')
        \<and> health c' = HealthUnhealthy ''invalid selector'' \<and> args c' = example_bad_args"
proof -
  obtain c' where h: "handleUpdate \<lparr>cu_args = example_bad_args, cu_err = 0\<rparr> example_env example_running
           = Ok (Some ''invalid selector'', c')"
    by (simp add: handleUpdate_defs example_defs)
  from failed_update_amended [OF h] h show ?thesis by simp
qed

section \<open>A client that cannot be built\<close>

text \<open>
  The claim C6 says that a failure to build a client never prevents the
  component from existing. It does: with an address the client of the rule
  service rejects, \<open>NewComponent\<close> returns an error and no component.
\<close>

theorem client_failure_is_fatal_counterexample:
  "NewComponent example_env (example_args\<lparr>Address := []\<rparr>) =
     NewErr ''initializing component failed: empty address''"
  by (simp add: NewComponent_def newComponentStruct_def init_defs example_defs)

text \<open>
  C6, as amended. A failure to build the cluster client or the client of the
  rule service is not retried. In \<open>NewComponent\<close> it is returned, wrapped as
  "initializing component failed", and there is no component. In a
  configuration update (received while a generation is running) it is reported
  as unhealthy and sent to the caller of \<open>Update\<close>, without any wait on a
  backoff. \<open>startup\<close>, which is what the first loop of \<open>Run\<close> retries, builds no
  client: its outcome does not depend on the client constructors.
\<close>

theorem client_construction_failure_amended:
  assumes "clients_err e a = Some err"
  shows "(0 < SyncInterval a \<longrightarrow>
            NewComponent e a = NewErr (''initializing component failed: '' @ err))
       \<and> (informerStopChan c = ChanOpen \<and> queue c \<noteq> QueueNil \<longrightarrow>
            (\<exists>c'. handleUpdate \<lparr>cu_args = a, cu_err = ch\<rparr> e c = Ok (Some err, c')
                 \<and> health c' = HealthUnhealthy err
                 \<and> last (trace c') = SendErr ch (Some err)
                 \<and> filter isBackoffWait (trace c') = filter isBackoffWait (trace c)))
       \<and> startup (e\<lparr>getConfig := g, k8sNewForConfig := kf, promNewForConfig := pf,
                      lokiClientNew := lf\<rparr>) c = startup e c"
proof (intro conjI impI)
  assume "0 < SyncInterval a"
  with assms init_clients_fst [of e "emit (LogInfo ''initializing with new configuration'') (newComponentStruct a)"]
  show "NewComponent e a = NewErr (''initializing component failed: '' @ err)"
    by (auto simp: NewComponent_def init_def emit_def newComponentStruct_def split: prod.splits option.splits)
next
  assume live: "informerStopChan c = ChanOpen \<and> queue c \<noteq> QueueNil"
  let ?c0 = "emit ConfigUpdatesTotalInc (c\<lparr>configUpdatesTotal := Suc (configUpdatesTotal c)\<rparr>)"
  from live have "informerStopChan ?c0 = ChanOpen" "queue ?c0 \<noteq> QueueNil"
    by (simp_all add: emit_def)
  from shutdown_open [OF this] obtain c1 where sd: "shutdown ?c0 = Ok c1"
    and t1: "trace c1 = trace c @ [ConfigUpdatesTotalInc, CloseStopChan, QueueShutDownWithDrain]"
    by (simp add: emit_def)
  let ?c1 = "emit (LogInfo ''initializing with new configuration'') (c1\<lparr>args := a\<rparr>)"
  obtain c2 where ic: "init_clients e ?c1 = (Some err, c2)"
    using assms init_clients_fst [of e ?c1] by (cases "init_clients e ?c1") (simp add: emit_def)
  have t2: "trace c2 = trace ?c1" "health c2 = health ?c1"
    using ic by (auto simp: init_clients_def split: sum.splits)
  have i: "init e (c1\<lparr>args := a\<rparr>) = Ok (Some err, c2)"
    using ic by (simp add: init_def)
  let ?c' = "emit (SendErr ch (Some err))
                    (reportUnhealthy err (emit (LogError ''updating configuration failed'' err) c2))"
  have "handleUpdate \<lparr>cu_args = a, cu_err = ch\<rparr> e c = Ok (Some err, ?c')"
    using sd i by (simp add: handleUpdate_def)
  moreover have "health ?c' = HealthUnhealthy err" by (simp add: emit_def reportUnhealthy_def)
  moreover have "last (trace ?c') = SendErr ch (Some err)" by (simp add: emit_def)
  moreover have "filter isBackoffWait (trace ?c') = filter isBackoffWait (trace c)"
    using t1 t2 by (simp add: emit_def reportUnhealthy_def)
  ultimately show "\<exists>c'. handleUpdate \<lparr>cu_args = a, cu_err = ch\<rparr> e c = Ok (Some err, c')
                 \<and> health c' = HealthUnhealthy err
                 \<and> last (trace c') = SendErr ch (Some err)
                 \<and> filter isBackoffWait (trace c') = filter isBackoffWait (trace c)" by blast
next
  show "startup (e\<lparr>getConfig := g, k8sNewForConfig := kf, promNewForConfig := pf,
                      lokiClientNew := lf\<rparr>) c = startup e c"
    by (simp add: startup_defs split: option.splits sum.splits)
qed

theorem client_construction_failure_amended_witness:
  "clients_err example_env (example_args\<lparr>Address := []\<rparr>) = Some ''empty address''
   \<and> NewComponent example_env (example_args\<lparr>Address := []\<rparr>)
       = NewErr ''initializing component failed: empty address''
   \<and> (\<exists>c'. handleUpdate \<lparr>cu_args = example_args\<lparr>Address := []\<rparr>, cu_err = 0\<rparr> example_env example_running
             = Ok (Some ''empty address'', c')
          \<and> health c' = HealthUnhealthy ''empty address''
          \<and> filter isBackoffWait (trace c') = [])"
proof -
  have h: "clients_err example_env (example_args\<lparr>Address := []\<rparr>) = Some ''empty address''"
    by (simp add: clients_err_def init_clients_def newComponentStruct_def example_defs)
  have p: "0 < SyncInterval (example_args\<lparr>Address := []\<rparr>)"
    by (simp add: example_defs)
  have l: "informerStopChan example_running = ChanOpen \<and> queue example_running \<noteq> QueueNil"
    by (simp add: example_defs)
  have t: "trace example_running = []" by (simp add: example_defs)
  have A: "NewComponent example_env (example_args\<lparr>Address := []\<rparr>)
             = NewErr ''initializing component failed: empty address''"
    using client_construction_failure_amended [OF h, THEN conjunct1] p by simp
  have B: "\<exists>c'. handleUpdate \<lparr>cu_args = example_args\<lparr>Address := []\<rparr>, cu_err = 0\<rparr> example_env example_running
             = Ok (Some ''empty address'', c')
          \<and> health c' = HealthUnhealthy ''empty address''
          \<and> filter isBackoffWait (trace c') = []"
    using client_construction_failure_amended [OF h, THEN conjunct2, THEN conjunct1, of example_running 0] l t
    by auto
  from h A B show ?thesis by simp
qed

section \<open>Shutting down twice\<close>

text \<open>
  With the stop channel closed, both cases of the run loop that call \<open>shutdown\<close>
  panic. An update that fails although \<open>startup\<close> would have succeeded has failed
  in \<open>init\<close>, and leaves the channel closed.
\<close>

lemma closed_channel_panics:
  assumes "informerStopChan c = ChanClosed"
  shows "fst (run_loop (CtxDone # ins) c) = Panicked ''close of closed channel''"
    and "fst (run_loop (RecvConfigUpdate u e # ins) c) = Panicked ''close of closed channel''"
  using assms by (simp_all add: handleUpdate_def shutdown_def emit_def)

lemma failed_init_closes_channel:
  "handleUpdate u e c = Ok (Some err, c1) \<Longrightarrow> startup_err e = None \<Longrightarrow>
     informerStopChan c1 = ChanClosed \<and> queue c1 = QueueShutDown"
  by (auto simp: handleUpdate_defs startup_err_def
      split: chan_state.splits queue_state.splits sum.splits option.splits if_splits)

text \<open>
  C3. \<open>shutdown\<close> is not safe at every point at which the run loop calls it.
  After an update whose \<open>init\<close> fails, the loop goes back to its \<open>select\<close>
  with the stop channel already closed; the next cancellation of the context,
  or the next update, calls \<open>shutdown\<close> again, and closing the closed channel
  panics.
\<close>

theorem shutdown_after_failed_update_panics:
  "fst (run_loop [RecvConfigUpdate \<lparr>cu_args = example_bad_args, cu_err = 0\<rparr> example_env, CtxDone]
          example_running) = Panicked ''close of closed channel'' \<and>
   fst (run_loop [RecvConfigUpdate \<lparr>cu_args = example_bad_args, cu_err = 0\<rparr> example_env,
                  RecvConfigUpdate \<lparr>cu_args = example_args, cu_err = 1\<rparr> example_env]
          example_running) = Panicked ''close of closed channel''"
  by (simp add: handleUpdate_defs example_defs)

text \<open>
  C1. Not every call of \<open>Update\<close> gets a result. With two calls, the first with
  a selector that does not parse and the second with good arguments, the first
  returns the error; the second is received, the loop panics in \<open>shutdown\<close>
  before anything is sent on the second call's channel, and the second call is
  left blocked in its receive.
\<close>

theorem update_after_failed_update_gets_no_result:
  "(case run_sys [Receive 0 example_env, Deliver 0, Receive 1 example_env]
            (init_sys [example_bad_args, example_args] example_running) of
      Some s \<Rightarrow>
        callers s = [UpdateReturned (Some ''invalid selector''), AtRecv 1] \<and>
        loop s = Crashed ''close of closed channel'' \<and>
        sentOn 1 (trace (comp s)) = []
    | None \<Rightarrow> False)"
  by (simp add: sys_defs handleUpdate_defs example_defs)

section \<open>The first loop of Run\<close>

text \<open>
  What one call of \<open>startup\<close> adds to the trace: no wait and no report of its
  own; when it succeeds, the launch of the event loop comes last.
\<close>

lemma startup_ok_shape:
  "startup e c = (None, c1) \<Longrightarrow>
   \<exists>tr. trace c1 = trace c @ tr \<and> filter isBackoffWait tr = [] \<and> unhealthyReports tr = []
        \<and> tr \<noteq> [] \<and> last tr = GoEventLoop
        \<and> informerStopChan c1 = ChanOpen \<and> queue c1 = QueueLive"
  by (auto simp: startup_defs split: option.splits sum.splits)

lemma startup_fail_shape:
  "startup e c = (Some err, c1) \<Longrightarrow>
   \<exists>tr. trace c1 = trace c @ tr \<and> filter isBackoffWait tr = [] \<and> unhealthyReports tr = []"
  by (auto simp: startup_defs split: option.splits sum.splits)

lemma unhealthyReports_append:
  "unhealthyReports (xs @ ys) = unhealthyReports xs @ unhealthyReports ys"
  by (induction xs rule: unhealthyReports.induct) auto

lemma startup_loop_partial:
  assumes "startup_loop envs n b c = Some res"
  shows "(case res of (k, b', c') \<Rightarrow>
       n \<le> k \<and> (\<forall>i. n \<le> i \<and> i < k \<longrightarrow> startup_err (envs i) \<noteq> None)
       \<and> startup_err (envs k) = None
       \<and> b' = b \<and> informerStopChan c' = ChanOpen \<and> queue c' = QueueLive
       \<and> (\<exists>tr. trace c' = trace c @ tr
             \<and> filter isBackoffWait tr = replicate (k - n) (BackoffWait (cfg b))
             \<and> unhealthyReports tr = map (\<lambda>i. the (startup_err (envs i))) [n..<k]
             \<and> tr \<noteq> [] \<and> last tr = GoEventLoop))"
    (is "?P envs n b c res")
proof (rule startup_loop.raw_induct [where P = ?P, OF _ assms])
  fix loop envs n b c res
  assume IH: "\<And>envs n b c res. loop envs n b c = Some res \<Longrightarrow> ?P envs n b c res"
    and body: "(case startup (envs n) c of
                  (None, c1) \<Rightarrow> Some (n, b, c1)
                | (Some err, c1) \<Rightarrow>
                    loop envs (Suc n) b
                      (Wait b (reportUnhealthy err
                                 (emit (LogError ''starting up component failed'' err) c1)))) = Some res"
  show "?P envs n b c res"
  proof (cases "startup (envs n) c")
    case (Pair r c1)
    show ?thesis
    proof (cases r)
      case None
      with Pair body have res: "res = (n, b, c1)" by simp
      from startup_fst [of "envs n" c] Pair None have "startup_err (envs n) = None" by simp
      moreover from startup_ok_shape Pair None obtain tr where
        "trace c1 = trace c @ tr" "filter isBackoffWait tr = []" "unhealthyReports tr = []"
        "tr \<noteq> []" "last tr = GoEventLoop" "informerStopChan c1 = ChanOpen"
        "queue c1 = QueueLive" by blast
      ultimately show ?thesis using res by auto
    next
      case (Some err)
      define c2 where
        "c2 = reportUnhealthy err (emit (LogError ''starting up component failed'' err) c1)"
      from Pair Some body
      have rec: "loop envs (Suc n) b (emit (BackoffWait (cfg b)) c2) = Some res"
        by (simp add: Wait_def c2_def)
      obtain k b' c' where res: "res = (k, b', c')" by (cases res) auto
      from IH [OF rec] res have IH':
        "Suc n \<le> k" "\<forall>i. Suc n \<le> i \<and> i < k \<longrightarrow> startup_err (envs i) \<noteq> None"
        "startup_err (envs k) = None" "b' = b"
        "informerStopChan c' = ChanOpen \<and> queue c' = QueueLive"
        "\<exists>tr. trace c' = trace (emit (BackoffWait (cfg b)) c2) @ tr
             \<and> filter isBackoffWait tr = replicate (k - Suc n) (BackoffWait (cfg b))
             \<and> unhealthyReports tr = map (\<lambda>i. the (startup_err (envs i))) [Suc n..<k]
             \<and> tr \<noteq> [] \<and> last tr = GoEventLoop"
        by auto
      from startup_fst [of "envs n" c] Pair Some have en: "startup_err (envs n) = Some err"
        by simp
      from startup_fail_shape Pair Some obtain tr0 where tr0:
        "trace c1 = trace c @ tr0" "filter isBackoffWait tr0 = []" "unhealthyReports tr0 = []"
        by blast
      from IH'(6) obtain tr where tr:
        "trace c' = trace (emit (BackoffWait (cfg b)) c2) @ tr"
        "filter isBackoffWait tr = replicate (k - Suc n) (BackoffWait (cfg b))"
        "unhealthyReports tr = map (\<lambda>i. the (startup_err (envs i))) [Suc n..<k]"
        "tr \<noteq> []" "last tr = GoEventLoop" by blast
      let ?mid = "tr0 @ [LogError ''starting up component failed'' err, ReportUnhealthy err,
                        BackoffWait (cfg b)]"
      have t1: "trace c' = trace c @ (?mid @ tr)"
        using tr(1) tr0(1) by (simp add: c2_def reportUnhealthy_def emit_def)
      have t2: "filter isBackoffWait (?mid @ tr) = replicate (k - n) (BackoffWait (cfg b))"
        using tr(2) tr0(2) IH'(1) by (simp add: Suc_diff_le flip: replicate_Suc)
      have "[n..<k] = n # [Suc n..<k]" using IH'(1) by (simp add: upt_conv_Cons)
      then have t3: "unhealthyReports (?mid @ tr) = map (\<lambda>i. the (startup_err (envs i))) [n..<k]"
        using tr(3) tr0(3) en by (simp add: unhealthyReports_append)
      have t4: "?mid @ tr \<noteq> [] \<and> last (?mid @ tr) = GoEventLoop" using tr(4,5) by simp
      have a: "\<forall>i. n \<le> i \<and> i < k \<longrightarrow> startup_err (envs i) \<noteq> None"
      proof (intro allI impI)
        fix i assume "n \<le> i \<and> i < k"
        then show "startup_err (envs i) \<noteq> None"
          using IH'(2) en by (cases "i = n") auto
      qed
      have nk: "n \<le> k" using IH'(1) by simp
      from t1 t2 t3 t4 have "\<exists>tr. trace c' = trace c @ tr
             \<and> filter isBackoffWait tr = replicate (k - n) (BackoffWait (cfg b))
             \<and> unhealthyReports tr = map (\<lambda>i. the (startup_err (envs i))) [n..<k]
             \<and> tr \<noteq> [] \<and> last tr = GoEventLoop" by blast
      with res nk a IH'(3,4,5) show ?thesis by simp
    qed
  qed
qed


text \<open>
  The \<open>select\<close> loop is entered with a running generation, so a cancellation
  that comes first makes \<open>Run\<close> return nil.
\<close>

lemma Run_cancel_after_startup:
  assumes "Run envs (CtxDone # ins) c = Some (out, cf)"
  shows "out = Returned None \<and> informerStopChan cf = ChanClosed \<and> queue cf = QueueShutDown"
proof -
  from assms obtain k b c' where
    h: "startup_loop envs 0 (backoffNew startupBackoffConfig) c = Some (k, b, c')"
    and r: "run_loop (CtxDone # ins) c' = (out, cf)"
    by (auto simp: Run_def split: option.splits)
  from startup_loop_partial [OF h] have "informerStopChan c' = ChanOpen" "queue c' \<noteq> QueueNil"
    by auto
  from shutdown_open [OF this] r show ?thesis by auto
qed




section \<open>Cancellation and the watches\<close>

text \<open>
  With a generation running, the cancellation case closes the stop channel the
  field holds, shuts that queue down with drain and returns nil; nothing else
  of the component changes, and no later input is looked at.
\<close>

lemma cancel_closes_current_channel:
  "informerStopChan c = ChanOpen \<Longrightarrow> queue c \<noteq> QueueNil \<Longrightarrow>
     run_loop (CtxDone # ins) c =
       (Returned None,
        c\<lparr>informerStopChan := ChanClosed, queue := QueueShutDown,
          trace := trace c @ [CloseStopChan, QueueShutDownWithDrain],
          closedChans := closedChans c @ [stopChanNo c]\<rparr>)"
  by (simp add: shutdown_open)

text \<open>
  The stop channels over time: \<open>startup\<close> always makes a new one and closes
  none; \<open>shutdown\<close> closes the one the field holds; so the cases of the run loop
  and the first loop of \<open>Run\<close> never close a channel older than the one in the
  field, and never forget an informer that was started.
\<close>

lemma startup_chans:
  "stopChanNo (snd (startup e c)) = Suc (stopChanNo c)
   \<and> closedChans (snd (startup e c)) = closedChans c
   \<and> set (watches c) \<subseteq> set (watches (snd (startup e c)))
   \<and> (nsAddEventHandler e = None \<longrightarrow>
        (NamespaceInformer, Suc (stopChanNo c)) \<in> set (watches (snd (startup e c))))"
  by (auto simp: startup_defs split: option.splits sum.splits)

lemma shutdown_chans:
  "shutdown c = Ok c1 \<Longrightarrow>
     stopChanNo c1 = stopChanNo c \<and> closedChans c1 = closedChans c @ [stopChanNo c]
     \<and> watches c1 = watches c"
  by (auto simp: shutdown_def emit_def Let_def split: chan_state.splits queue_state.splits)

lemma shutdown_panic_chans:
  "shutdown c = Panic msg cp \<Longrightarrow>
     stopChanNo cp = stopChanNo c \<and> set (closedChans cp) \<subseteq> set (closedChans c) \<union> {stopChanNo c}
     \<and> watches cp = watches c"
  by (auto simp: shutdown_def emit_def Let_def split: chan_state.splits queue_state.splits)

lemma handleUpdate_chans:
  "stopChanNo c \<le> stopChanNo (state_of (handleUpdate u e c))
   \<and> set (closedChans (state_of (handleUpdate u e c))) \<subseteq> set (closedChans c) \<union> {stopChanNo c}
   \<and> set (watches c) \<subseteq> set (watches (state_of (handleUpdate u e c)))"
  by (auto simp: handleUpdate_defs
      split: chan_state.splits queue_state.splits sum.splits option.splits)

lemma handleTick_chans:
  "handleTick c = Ok c1 \<or> handleTick c = Panic msg c1 \<Longrightarrow>
     stopChanNo c1 = stopChanNo c \<and> closedChans c1 = closedChans c \<and> watches c1 = watches c"
  by (auto simp: handleTick_def emit_def split: queue_state.splits)

lemma run_loop_chans:
  "stopChanNo c \<le> stopChanNo (snd (run_loop ins c))
   \<and> set (closedChans (snd (run_loop ins c))) \<subseteq> set (closedChans c) \<union> {n. stopChanNo c \<le> n}
   \<and> set (watches c) \<subseteq> set (watches (snd (run_loop ins c)))"
proof (induction ins c rule: run_loop.induct)
  case (1 c)
  then show ?case by simp
next
  case (2 u e ins c)
  show ?case
  proof (cases "handleUpdate u e c")
    case (Ok rc)
    obtain r c1 where rc: "rc = (r, c1)" by (cases rc)
    from handleUpdate_chans [of c u e] Ok rc
    have h: "stopChanNo c \<le> stopChanNo c1"
      "set (closedChans c1) \<subseteq> set (closedChans c) \<union> {stopChanNo c}"
      "set (watches c) \<subseteq> set (watches c1)" by simp_all
    from 2 [OF Ok rc [symmetric]] Ok rc h show ?thesis by auto
  next
    case (Panic msg cp)
    with handleUpdate_chans [of c u e] show ?thesis by auto
  qed
next
  case (3 ins c)
  show ?case
  proof (cases "shutdown c")
    case (Ok c1)
    with shutdown_chans [OF Ok] show ?thesis by auto
  next
    case (Panic msg cp)
    with shutdown_panic_chans [OF Panic] show ?thesis by auto
  qed
next
  case (4 ins c)
  show ?case
  proof (cases "handleTick c")
    case (Ok c1)
    from handleTick_chans [of c c1] Ok
    have "stopChanNo c1 = stopChanNo c" "closedChans c1 = closedChans c" "watches c1 = watches c"
      by simp_all
    with 4 [OF Ok] Ok show ?thesis by simp
  next
    case (Panic msg cp)
    from handleTick_chans [of c cp msg] Panic show ?thesis by simp
  qed
qed

lemma startup_loop_chans:
  assumes "startup_loop envs n b c = Some res"
  shows "stopChanNo c < stopChanNo (snd (snd res))
       \<and> closedChans (snd (snd res)) = closedChans c
       \<and> set (watches c) \<subseteq> set (watches (snd (snd res)))"
    (is "?P envs n b c res")
proof (rule startup_loop.raw_induct [where P = ?P, OF _ assms])
  fix loop envs n b c res
  assume IH: "\<And>envs n b c res. loop envs n b c = Some res \<Longrightarrow> ?P envs n b c res"
    and body: "(case startup (envs n) c of
                  (None, c1) \<Rightarrow> Some (n, b, c1)
                | (Some err, c1) \<Rightarrow>
                    loop envs (Suc n) b
                      (Wait b (reportUnhealthy err
                                 (emit (LogError ''starting up component failed'' err) c1)))) = Some res"
  show "?P envs n b c res"
  proof (cases "startup (envs n) c")
    case (Pair r c1)
    from startup_chans [of "envs n" c] Pair
    have s: "stopChanNo c1 = Suc (stopChanNo c)" "closedChans c1 = closedChans c"
      "set (watches c) \<subseteq> set (watches c1)" by simp_all
    show ?thesis
    proof (cases r)
      case None
      with Pair body s show ?thesis by auto
    next
      case (Some err)
      let ?c2 = "Wait b (reportUnhealthy err (emit (LogError ''starting up component failed'' err) c1))"
      from Pair Some body have "loop envs (Suc n) b ?c2 = Some res" by simp
      from IH [OF this] s show ?thesis
        by (auto simp: Wait_def reportUnhealthy_def emit_def)
    qed
  qed
qed

text \<open>
  Hence the informers of a failed first attempt are never stopped. Whenever the
  first \<open>startup\<close> of a newly built component fails after the namespace informer
  was started (at the rule handler or at \<open>syncLoki\<close>), that informer is still
  running in whatever state \<open>Run\<close> ends, after any inputs: the retry puts a new
  channel into the field, and the first one is closed by nobody.
\<close>

lemma NewComponent_chans:
  "NewComponent e a = NewOk c \<Longrightarrow> stopChanNo c = 0 \<and> closedChans c = [] \<and> watches c = []"
  by (auto simp: NewComponent_def newComponentStruct_def init_defs
      split: sum.splits option.splits if_splits)

lemma failed_startup_leaves_watch_running:
  assumes "NewComponent e0 a = NewOk c"
    and "startup_err (envs 0) \<noteq> None" "nsAddEventHandler (envs 0) = None"
    and "Run envs ins c = Some (out, cf)"
  shows "(NamespaceInformer, 1) \<in> set (running_watches cf)"
proof -
  from NewComponent_chans [OF assms(1)]
  have c: "stopChanNo c = 0" "closedChans c = []" by simp_all
  from assms(4) obtain k b c2 where
    h: "startup_loop envs 0 (backoffNew startupBackoffConfig) c = Some (k, b, c2)"
    and r: "run_loop ins c2 = (out, cf)"
    by (auto simp: Run_def split: option.splits)
  obtain r0 c1 where s: "startup (envs 0) c = (r0, c1)" by (cases "startup (envs 0) c")
  from startup_fst [of "envs 0" c] s assms(2) obtain err where r0: "r0 = Some err" by auto
  from startup_chans [of "envs 0" c] s c assms(3)
  have c1: "stopChanNo c1 = 1" "closedChans c1 = []" "(NamespaceInformer, 1) \<in> set (watches c1)"
    by simp_all
  let ?c1 = "Wait (backoffNew startupBackoffConfig)
               (reportUnhealthy err (emit (LogError ''starting up component failed'' err) c1))"
  have c1': "stopChanNo ?c1 = 1" "closedChans ?c1 = []" "(NamespaceInformer, 1) \<in> set (watches ?c1)"
    using c1 by (simp_all add: Wait_def reportUnhealthy_def emit_def)
  from h s r0 have "startup_loop envs (Suc 0) (backoffNew startupBackoffConfig) ?c1 = Some (k, b, c2)"
    by (subst (asm) startup_loop.simps) simp
  from startup_loop_chans [OF this] c1'
  have c2: "1 < stopChanNo c2" "closedChans c2 = []" "(NamespaceInformer, 1) \<in> set (watches c2)"
    by auto
  from run_loop_chans [of c2 ins] r c2
  have "1 \<notin> set (closedChans cf)" "(NamespaceInformer, 1) \<in> set (watches cf)"
    by auto
  then show ?thesis by (simp add: running_watches_def)
qed

text \<open>
  C8. Cancellation does not stop every watch. With a rule service that cannot
  be reached during the first two attempts of \<open>startup\<close> and can during the
  third, and then a cancellation of the context, \<open>Run\<close> returns nil having
  closed the third stop channel only: the namespace and rule informers started
  by the two failed attempts, on the first and the second channel, are still
  running.
\<close>

theorem cancel_leaves_watches_running:
  "(case Run example_envs [CtxDone] example_built of
      Some (out, cf) \<Rightarrow>
        out = Returned None \<and> informerStopChan cf = ChanClosed \<and> closedChans cf = [3] \<and>
        running_watches cf =
          [(NamespaceInformer, 1), (PrometheusRuleInformer, 1),
           (NamespaceInformer, 2), (PrometheusRuleInformer, 2)]
    | None \<Rightarrow> False)"
  by (simp add: Run_def startup_loop.simps [of _ 0] startup_loop.simps [of _ "Suc 0"]
        startup_loop.simps [of _ "Suc (Suc 0)"] example_envs_def Wait_def backoffNew_def
        running_watches_def shutdown_def startup_defs reportUnhealthy_def example_defs)

section \<open>Calls of Update are served one at a time\<close>

text \<open>The invariant holds at the start and is kept by every step.\<close>

lemma sys_inv_init: "sys_inv as (init_sys as c)"
  by (auto simp: sys_inv_def init_sys_def Update_def)

lemma sys_inv_selecting:
  "sys_inv as s \<Longrightarrow> loop s = Selecting \<Longrightarrow> i < length as \<Longrightarrow> \<not> in_flight (callers s ! i)"
  by (cases "callers s ! i") (auto simp: sys_inv_def)

lemma sys_inv_receive:
  assumes "sys_inv as s" "receive_step i e s = Some s'"
  shows "sys_inv as s'"
proof -
  from assms(2) obtain u where sel: "loop s = Selecting" and i: "i < length (callers s)"
    and u: "callers s ! i = AtSend u"
    by (auto simp: receive_step_def split: if_splits caller.splits)
  from assms(1) i u have ueq: "u = \<lparr>cu_args = as ! i, cu_err = i\<rparr>" and len: "length (callers s) = length as"
    by (auto simp: sys_inv_def)
  have nf: "\<And>j ch. j < length as \<Longrightarrow> callers s ! j \<noteq> AtRecv ch"
    using sys_inv_selecting [OF assms(1) sel] by force
  have snd: "\<And>j v. j < length as \<Longrightarrow> callers s ! j = AtSend v \<Longrightarrow> v = \<lparr>cu_args = as ! j, cu_err = j\<rparr>"
    using assms(1) by (auto simp: sys_inv_def)
  from assms(2) sel i u obtain l c1 where s': "s' = s\<lparr>callers := (callers s)[i := AtRecv (cu_err u)],
                          loop := l, comp := c1\<rparr>" and l: "(\<exists>r. l = SendingErr u r) \<or> (\<exists>msg. l = Crashed msg)"
    by (auto simp: receive_step_def split: res.splits)
  show ?thesis
    unfolding sys_inv_def
  proof (intro conjI allI impI)
    show "length (callers s') = length as" using len s' by simp
  next
    fix j v assume "j < length as \<and> callers s' ! j = AtSend v"
    then show "v = \<lparr>cu_args = as ! j, cu_err = j\<rparr>"
      using s' snd len i by (cases "j = i") auto
  next
    fix j ch assume a: "j < length as \<and> callers s' ! j = AtRecv ch"
    then have ji: "j = i" using s' nf len i by (cases "j = i") auto
    with a s' len i ueq show "ch = j" by auto
    from ji l s' ueq show "(\<exists>r. loop s' = SendingErr \<lparr>cu_args = as ! j, cu_err = j\<rparr> r) \<or>
                 (\<exists>msg. loop s' = Crashed msg)" by auto
  next
    fix v r assume "loop s' = SendingErr v r"
    with s' l have "v = u" by auto
    with ueq len i s' show "cu_err v < length as" by simp
    from \<open>v = u\<close> ueq len i s' show "callers s' ! cu_err v = AtRecv (cu_err v)" by simp
  qed
qed

lemma sys_inv_deliver:
  assumes "sys_inv as s" "deliver_step i s = Some s'"
  shows "sys_inv as s'"
proof -
  from assms(2) obtain u r where l: "loop s = SendingErr u r" and i: "i < length (callers s)"
    and ci: "callers s ! i = AtRecv (cu_err u)"
    and s': "s' = s\<lparr>callers := (callers s)[i := UpdateReturned r], loop := Selecting\<rparr>"
    by (auto simp: deliver_step_def split: loop_state.splits if_splits)
  have len: "length (callers s) = length as" using assms(1) by (simp add: sys_inv_def)
  from assms(1) i ci len have ieq: "cu_err u = i"
    by (auto simp: sys_inv_def)
  have others: "\<And>j ch. j < length as \<Longrightarrow> j \<noteq> i \<Longrightarrow> callers s ! j \<noteq> AtRecv ch"
  proof
    fix j ch assume j: "j < length as" "j \<noteq> i" "callers s ! j = AtRecv ch"
    with assms(1) have "ch = j" "(\<exists>r. loop s = SendingErr \<lparr>cu_args = as ! j, cu_err = j\<rparr> r) \<or>
                 (\<exists>msg. loop s = Crashed msg)" by (auto simp: sys_inv_def)
    with l have "cu_err u = j" by auto
    with ieq j(2) show False by simp
  qed
  have snd: "\<And>j v. j < length as \<Longrightarrow> callers s ! j = AtSend v \<Longrightarrow> v = \<lparr>cu_args = as ! j, cu_err = j\<rparr>"
    using assms(1) by (auto simp: sys_inv_def)
  show ?thesis
    unfolding sys_inv_def
  proof (intro conjI allI impI)
    show "length (callers s') = length as" using len s' by simp
  next
    fix j v assume "j < length as \<and> callers s' ! j = AtSend v"
    then show "v = \<lparr>cu_args = as ! j, cu_err = j\<rparr>"
      using s' snd len i by (cases "j = i") auto
  next
    fix j ch assume a: "j < length as \<and> callers s' ! j = AtRecv ch"
    then have False using s' others len i by (cases "j = i") auto
    then show "ch = j" "(\<exists>r. loop s' = SendingErr \<lparr>cu_args = as ! j, cu_err = j\<rparr> r) \<or>
                 (\<exists>msg. loop s' = Crashed msg)" by auto
  next
    fix v r assume "loop s' = SendingErr v r"
    with s' show "cu_err v < length as" "callers s' ! cu_err v = AtRecv (cu_err v)" by auto
  qed
qed

lemma sys_inv_tick:
  assumes "sys_inv as s" "tick_step s = Some s'"
  shows "sys_inv as s'"
proof -
  from assms(2) have sel: "loop s = Selecting"
    by (auto simp: tick_step_def split: if_splits)
  from assms(2) sel obtain l c1 where s': "s' = s\<lparr>loop := l, comp := c1\<rparr>"
    and l: "l = Selecting \<or> (\<exists>msg. l = Crashed msg)"
    by (auto simp: tick_step_def split: res.splits) (metis system.surjective system.update_convs(2,3))+
  from assms(1) sel s' l show ?thesis
    by (auto simp: sys_inv_def)
qed

lemma sys_inv_cancel:
  assumes "sys_inv as s" "cancel_step s = Some s'"
  shows "sys_inv as s'"
proof -
  from assms(2) have sel: "loop s = Selecting"
    by (auto simp: cancel_step_def split: if_splits)
  from assms(2) sel obtain l c1 where s': "s' = s\<lparr>loop := l, comp := c1\<rparr>"
    and l: "l = Exited None \<or> (\<exists>msg. l = Crashed msg)"
    by (auto simp: cancel_step_def split: res.splits)
  from assms(1) sel s' l show ?thesis
    by (auto simp: sys_inv_def)
qed

lemma sys_inv_step: "sys_inv as s \<Longrightarrow> sys_step ev s = Some s' \<Longrightarrow> sys_inv as s'"
  by (cases ev) (auto intro: sys_inv_receive sys_inv_deliver sys_inv_tick sys_inv_cancel)

lemma sys_inv_run: "sys_inv as s \<Longrightarrow> run_sys evs s = Some s' \<Longrightarrow> sys_inv as s'"
  by (induction evs arbitrary: s) (auto split: option.splits dest: sys_inv_step)

text \<open>
  The loop is never stuck in its send: the call it answers is waiting, and the
  delivery makes that call return the result and puts the loop back in its
  \<open>select\<close>.
\<close>

lemma deliver_enabled:
  assumes "run_sys evs (init_sys as c) = Some s" "loop s = SendingErr u r"
  shows "\<exists>s'. sys_step (Deliver (cu_err u)) s = Some s'
            \<and> callers s' ! cu_err u = UpdateReturned r \<and> loop s' = Selecting"
proof -
  have inv: "sys_inv as s" using sys_inv_run [OF sys_inv_init assms(1)] .
  with assms(2) have "cu_err u < length (callers s)" "callers s ! cu_err u = AtRecv (cu_err u)"
    by (auto simp: sys_inv_def)
  with assms(2) show ?thesis by (simp add: deliver_step_def)
qed

text \<open>
  The component of the system goes through the states of \<open>run_loop\<close> on the
  inputs its events stand for: the system adds the callers to the run loop and
  changes nothing of it.
\<close>

lemma no_step_after_end:
  "(\<exists>r. loop s = Exited r) \<or> (\<exists>msg. loop s = Crashed msg) \<Longrightarrow> sys_step ev s = None"
  by (cases ev) (auto simp: sys_defs split: loop_state.splits)


lemma step_refines_run_loop:
  assumes "sys_inv as s" "sys_step ev s = Some s1"
  shows "run_loop (input_of as ev @ ins) (comp s) =
           (case loop s1 of
              Exited r \<Rightarrow> (Returned r, comp s1)
            | Crashed msg \<Rightarrow> (Panicked msg, comp s1)
            | _ \<Rightarrow> run_loop ins (comp s1))"
proof (cases ev)
  case (Receive i e)
  with assms(2) obtain u where i: "i < length (callers s)" and u: "callers s ! i = AtSend u"
    by (auto simp: receive_step_def split: if_splits caller.splits)
  with assms(1) have "u = \<lparr>cu_args = as ! i, cu_err = i\<rparr>" by (auto simp: sys_inv_def)
  with Receive assms(2) i u show ?thesis
    by (auto simp: receive_step_def split: if_splits res.splits)
next
  case (Deliver i)
  with assms(2) show ?thesis
    by (auto simp: deliver_step_def split: loop_state.splits if_splits)
next
  case TickEv
  with assms(2) show ?thesis
    by (auto simp: tick_step_def split: if_splits res.splits)
next
  case Cancel
  with assms(2) show ?thesis
    by (auto simp: cancel_step_def split: if_splits res.splits)
qed

lemma run_sys_refines_run_loop:
  assumes "sys_inv as s0" "run_sys evs s0 = Some s"
    and "loop s0 = Selecting \<or> (\<exists>u r. loop s0 = SendingErr u r)"
  shows "run_loop (concat (map (input_of as) evs)) (comp s0) = (outcome_of (loop s), comp s)"
  using assms
proof (induction evs arbitrary: s0)
  case Nil
  then show ?case by auto
next
  case (Cons ev evs)
  from Cons.prems(2) obtain s1 where st: "sys_step ev s0 = Some s1" and rest: "run_sys evs s1 = Some s"
    by (auto split: option.splits)
  have inv1: "sys_inv as s1" using sys_inv_step [OF Cons.prems(1) st] .
  note ref = step_refines_run_loop [OF Cons.prems(1) st, of "concat (map (input_of as) evs)"]
  show ?case
  proof (cases "loop s1 = Selecting \<or> (\<exists>u r. loop s1 = SendingErr u r)")
    case True
    from Cons.IH [OF inv1 rest True] ref True show ?thesis by auto
  next
    case False
    then have fin: "(\<exists>r. loop s1 = Exited r) \<or> (\<exists>msg. loop s1 = Crashed msg)"
      by (cases "loop s1") auto
    have "evs = [] \<and> s = s1"
    proof (cases evs)
      case Nil
      with rest show ?thesis by simp
    next
      case (Cons ev' evs')
      with rest no_step_after_end [OF fin, of ev'] show ?thesis by simp
    qed
    with ref fin show ?thesis by auto
  qed
qed

lemma init_sys_refines_run_loop:
  "run_sys evs (init_sys as c) = Some s \<Longrightarrow>
     run_loop (concat (map (input_of as) evs)) c = (outcome_of (loop s), comp s)"
  using run_sys_refines_run_loop [OF sys_inv_init, of evs as c s]
  by (simp add: init_sys_def)

text \<open>
  C4. In every state the system reaches from any number of concurrent calls of
  \<open>Update\<close>, along any schedule: at most one call is in flight (received by the
  loop and not yet answered); when a step makes the loop receive a call's
  update, no call is in flight, so the result of every call received before
  has been delivered; and a call returns only by the delivery, on its own
  channel, of the result the loop holds for its own update, until when it stays
  blocked.
\<close>

theorem updates_serialized:
  assumes "run_sys evs (init_sys as c) = Some s" and "sys_step ev s = Some s'"
  shows "(\<forall>i < length as. \<forall>j < length as.
            in_flight (callers s ! i) \<and> in_flight (callers s ! j) \<longrightarrow> i = j)
       \<and> (\<forall>j < length as.
            \<not> in_flight (callers s ! j) \<and> in_flight (callers s' ! j) \<longrightarrow>
              (\<forall>i < length as. \<not> in_flight (callers s ! i)))
       \<and> (\<forall>j < length as. \<forall>r.
            callers s ! j \<noteq> UpdateReturned r \<and> callers s' ! j = UpdateReturned r \<longrightarrow>
              ev = Deliver j \<and> callers s ! j = AtRecv j \<and>
              loop s = SendingErr \<lparr>cu_args = as ! j, cu_err = j\<rparr> r)"
proof -
  have inv: "sys_inv as s"
    using sys_inv_run [OF sys_inv_init assms(1)] .
  have len: "length (callers s) = length as" using inv by (simp add: sys_inv_def)
  have recv: "\<And>i ch. i < length as \<Longrightarrow> callers s ! i = AtRecv ch \<Longrightarrow>
                ch = i \<and> ((\<exists>r. loop s = SendingErr \<lparr>cu_args = as ! i, cu_err = i\<rparr> r) \<or>
                 (\<exists>msg. loop s = Crashed msg))"
    using inv by (auto simp: sys_inv_def)
  have enabled: "(\<exists>u r. loop s = SendingErr u r) \<or> loop s = Selecting"
    using assms(2)
    by (cases ev)
       (auto simp: receive_step_def deliver_step_def tick_step_def cancel_step_def
             split: if_splits loop_state.splits)
  have one: "\<forall>i < length as. \<forall>j < length as.
            in_flight (callers s ! i) \<and> in_flight (callers s ! j) \<longrightarrow> i = j"
  proof (intro allI impI)
    fix i j assume i: "i < length as" and j: "j < length as"
      and f: "in_flight (callers s ! i) \<and> in_flight (callers s ! j)"
    from f obtain ci cj where ci: "callers s ! i = AtRecv ci" and cj: "callers s ! j = AtRecv cj"
      by (cases "callers s ! i"; cases "callers s ! j") auto
    from sys_inv_selecting [OF inv _ i] f have ns: "loop s \<noteq> Selecting" by auto
    with enabled obtain u r where l: "loop s = SendingErr u r" by auto
    from recv [OF i ci] l have "cu_err u = i" by auto
    moreover from recv [OF j cj] l have "cu_err u = j" by auto
    ultimately show "i = j" by simp
  qed
  have starts: "\<forall>j < length as.
            \<not> in_flight (callers s ! j) \<and> in_flight (callers s' ! j) \<longrightarrow>
              (\<forall>i < length as. \<not> in_flight (callers s ! i))"
  proof (intro allI impI)
    fix j i assume j: "j < length as" and i: "i < length as"
      and b: "\<not> in_flight (callers s ! j) \<and> in_flight (callers s' ! j)"
    have "loop s = Selecting"
    proof (cases ev)
      case (Receive k e)
      with assms(2) show ?thesis by (auto simp: receive_step_def split: if_splits)
    next
      case (Deliver k)
      with assms(2) b j len have False
        by (auto simp: deliver_step_def nth_list_update split: loop_state.splits if_splits)
      then show ?thesis ..
    next
      case TickEv
      with assms(2) show ?thesis by (auto simp: tick_step_def split: if_splits)
    next
      case Cancel
      with assms(2) show ?thesis by (auto simp: cancel_step_def split: if_splits)
    qed
    from sys_inv_selecting [OF inv this i] show "\<not> in_flight (callers s ! i)" .
  qed
  have ret: "\<forall>j < length as. \<forall>r.
            callers s ! j \<noteq> UpdateReturned r \<and> callers s' ! j = UpdateReturned r \<longrightarrow>
              ev = Deliver j \<and> callers s ! j = AtRecv j \<and>
              loop s = SendingErr \<lparr>cu_args = as ! j, cu_err = j\<rparr> r"
  proof (intro allI impI)
    fix j r assume j: "j < length as"
      and b: "callers s ! j \<noteq> UpdateReturned r \<and> callers s' ! j = UpdateReturned r"
    show "ev = Deliver j \<and> callers s ! j = AtRecv j \<and>
              loop s = SendingErr \<lparr>cu_args = as ! j, cu_err = j\<rparr> r"
    proof (cases ev)
      case (Receive k e)
      with assms(2) b j len have False
        by (auto simp: receive_step_def nth_list_update split: if_splits caller.splits res.splits)
      then show ?thesis ..
    next
      case (Deliver k)
      with assms(2) obtain u r' where l: "loop s = SendingErr u r'" and k: "k < length (callers s)"
        and ck: "callers s ! k = AtRecv (cu_err u)"
        and s': "s' = s\<lparr>callers := (callers s)[k := UpdateReturned r'], loop := Selecting\<rparr>"
        by (auto simp: deliver_step_def split: loop_state.splits if_splits)
      from b s' k have kj: "k = j" and rr: "r' = r"
        by (auto simp: nth_list_update split: if_splits)
      from recv [OF j] ck kj have cj: "cu_err u = j" by auto
      from recv [OF j] ck kj l have "u = \<lparr>cu_args = as ! j, cu_err = j\<rparr>" by auto
      with l rr ck cj kj Deliver show ?thesis by simp
    next
      case TickEv
      with assms(2) b have False
        by (auto simp: tick_step_def split: if_splits res.splits)
      then show ?thesis ..
    next
      case Cancel
      with assms(2) b have False
        by (auto simp: cancel_step_def split: if_splits res.splits)
      then show ?thesis ..
    qed
  qed
  from one starts ret show ?thesis by blast
qed

theorem updates_serialized_witness:
  "\<exists>s s'. run_sys [Receive 0 example_env] (init_sys [example_args, example_bad_args] example_running)
             = Some s
         \<and> sys_step (Deliver 0) s = Some s'
         \<and> callers s = [AtRecv 0, AtSend \<lparr>cu_args = example_bad_args, cu_err = 1\<rparr>]
         \<and> callers s' = [UpdateReturned None, AtSend \<lparr>cu_args = example_bad_args, cu_err = 1\<rparr>]
         \<and> loop s = SendingErr \<lparr>cu_args = example_args, cu_err = 0\<rparr> None"
proof -
  let ?as = "[example_args, example_bad_args]"
  let ?evs = "[Receive 0 example_env]"
  define s where "s = the (run_sys ?evs (init_sys ?as example_running))"
  define s' where "s' = the (sys_step (Deliver 0) s)"
  have rs: "run_sys ?evs (init_sys ?as example_running) = Some s"
    by (simp add: s_def sys_defs handleUpdate_defs example_defs)
  have cs: "callers s = [AtRecv 0, AtSend \<lparr>cu_args = example_bad_args, cu_err = 1\<rparr>]"
    by (simp add: s_def sys_defs handleUpdate_defs example_defs)
  have ls: "\<exists>r. loop s = SendingErr \<lparr>cu_args = example_args, cu_err = 0\<rparr> r"
    by (simp add: s_def sys_defs handleUpdate_defs example_defs)
  have st: "sys_step (Deliver 0) s = Some s'"
    using cs ls by (auto simp: s'_def deliver_step_def)
  have cs': "callers s' = [UpdateReturned None, AtSend \<lparr>cu_args = example_bad_args, cu_err = 1\<rparr>]"
    by (simp add: s'_def s_def sys_defs handleUpdate_defs example_defs)
  note th = updates_serialized [OF rs st, THEN conjunct2, THEN conjunct2, rule_format, of 0 None]
  from th cs cs'
  have "loop s = SendingErr \<lparr>cu_args = example_args, cu_err = 0\<rparr> None"
    by simp
  with rs st cs cs' show ?thesis by blast
qed

end
